theory Spec2Isabelle
  imports Main "HOL-Library.Sublist"
begin

section \<open>NexusChat (src/app/page.tsx): mentions, knowledge store and composer\<close>

text \<open>
  The page keeps two stores in component state (the knowledge bases and the messages) and a
  composer (input text, the composing flag, the mention query and its index). Every handler
  of the source is a function from the state to the next state. The clock (\<open>Date.now()\<close>)
  and the random source (\<open>Math.random()\<close>) are read by the handlers; here each reading is
  an argument of the handler that makes it.

  Strings are lists of 8-bit characters, read as the UTF-16 code units below 256.
\<close>

subsection \<open>The string operations of the platform that the page calls\<close>

text \<open>\<open>String.prototype.trim\<close>: white space and line terminators, at both ends.\<close>

definition isWhiteSpace :: "char \<Rightarrow> bool" where
  "isWhiteSpace c \<longleftrightarrow>
     c \<in> set [CHR 0x09, CHR 0x0A, CHR 0x0B, CHR 0x0C, CHR 0x0D, CHR 0x20, CHR 0xA0]"

definition trim :: "string \<Rightarrow> string" where
  "trim s = rev (dropWhile isWhiteSpace (rev (dropWhile isWhiteSpace s)))"

text \<open>\<open>String.prototype.toLowerCase\<close>, character by character: A to Z, and the capital
  letters of Latin-1 (0xC0 to 0xDE, without the multiplication sign 0xD7).\<close>

definition upperCase :: string where
  "upperCase = ''ABCDEFGHIJKLMNOPQRSTUVWXYZ'' @
     [CHR 0xC0, CHR 0xC1, CHR 0xC2, CHR 0xC3, CHR 0xC4, CHR 0xC5, CHR 0xC6, CHR 0xC7,
      CHR 0xC8, CHR 0xC9, CHR 0xCA, CHR 0xCB, CHR 0xCC, CHR 0xCD, CHR 0xCE, CHR 0xCF,
      CHR 0xD0, CHR 0xD1, CHR 0xD2, CHR 0xD3, CHR 0xD4, CHR 0xD5, CHR 0xD6,
      CHR 0xD8, CHR 0xD9, CHR 0xDA, CHR 0xDB, CHR 0xDC, CHR 0xDD, CHR 0xDE]"

definition lowerCase :: string where
  "lowerCase = ''abcdefghijklmnopqrstuvwxyz'' @
     [CHR 0xE0, CHR 0xE1, CHR 0xE2, CHR 0xE3, CHR 0xE4, CHR 0xE5, CHR 0xE6, CHR 0xE7,
      CHR 0xE8, CHR 0xE9, CHR 0xEA, CHR 0xEB, CHR 0xEC, CHR 0xED, CHR 0xEE, CHR 0xEF,
      CHR 0xF0, CHR 0xF1, CHR 0xF2, CHR 0xF3, CHR 0xF4, CHR 0xF5, CHR 0xF6,
      CHR 0xF8, CHR 0xF9, CHR 0xFA, CHR 0xFB, CHR 0xFC, CHR 0xFD, CHR 0xFE]"

definition toLowerCaseChar :: "char \<Rightarrow> char" where
  "toLowerCaseChar c = (case map_of (zip upperCase lowerCase) c of Some l \<Rightarrow> l | None \<Rightarrow> c)"

definition toLowerCase :: "string \<Rightarrow> string" where
  "toLowerCase s = map toLowerCaseChar s"

text \<open>\<open>s.includes(sub)\<close>: \<open>sub\<close> starts at some index of \<open>s\<close>.\<close>

fun startsWith :: "string \<Rightarrow> string \<Rightarrow> bool" where
  "startsWith s [] = True"
| "startsWith [] (d # ds) = False"
| "startsWith (c # cs) (d # ds) = (c = d \<and> startsWith cs ds)"

fun includesStr :: "string \<Rightarrow> string \<Rightarrow> bool" where
  "includesStr [] sub = startsWith [] sub"
| "includesStr (c # cs) sub = (startsWith (c # cs) sub \<or> includesStr cs sub)"

text \<open>\<open>s.lastIndexOf(c)\<close> for a single character: the greatest index of \<open>c\<close>, or -1.\<close>

fun lastIndexOf :: "string \<Rightarrow> char \<Rightarrow> int" where
  "lastIndexOf [] c = -1"
| "lastIndexOf (d # ds) c =
     (let r = lastIndexOf ds c in
      if r \<noteq> -1 then r + 1 else if d = c then 0 else -1)"

text \<open>\<open>s.slice(start, end)\<close> and \<open>s.slice(start)\<close>: a negative index counts from the
  end, and both are clamped to the string.\<close>

definition sliceIndex :: "string \<Rightarrow> int \<Rightarrow> nat" where
  "sliceIndex s i =
     (if i < 0 then nat (max (int (length s) + i) 0) else nat (min i (int (length s))))"

definition slice :: "string \<Rightarrow> int \<Rightarrow> int \<Rightarrow> string" where
  "slice s start end' = take (sliceIndex s end' - sliceIndex s start) (drop (sliceIndex s start) s)"

definition sliceFrom :: "string \<Rightarrow> int \<Rightarrow> string" where
  "sliceFrom s start = drop (sliceIndex s start) s"

text \<open>\<open>s.split(',')\<close>: the pieces between the commas; the empty string gives one empty
  piece.\<close>

fun split :: "string \<Rightarrow> char \<Rightarrow> string list" where
  "split [] sep = [[]]"
| "split (c # cs) sep =
     (if c = sep then [] # split cs sep
      else (case split cs sep of p # ps \<Rightarrow> (c # p) # ps | [] \<Rightarrow> [[c]]))"

text \<open>\<open>xs.join(sep)\<close>.\<close>

fun join :: "string list \<Rightarrow> string \<Rightarrow> string" where
  "join [] sep = []"
| "join [x] sep = x"
| "join (x # y # ys) sep = x @ sep @ join (y # ys) sep"

text \<open>\<open>n.toString()\<close> of an integer number (a clock reading): its decimal digits, with a
  minus sign below zero.\<close>

function digits :: "nat \<Rightarrow> string" where
  "digits n =
     (if n < 10 then [''0123456789'' ! n]
      else digits (n div 10) @ [''0123456789'' ! (n mod 10)])"
  by pat_completeness auto
termination
  by (relation "measure id") auto

declare digits.simps [simp del]

definition toString :: "int \<Rightarrow> string" where
  "toString n = (if n < 0 then CHR ''-'' # digits (nat (- n)) else digits (nat n))"

subsection \<open>Types\<close>

text \<open>\<open>interface KnowledgeBase\<close> and \<open>interface Message\<close>. The fields carry the prefix
  of their record (\<open>kb_id\<close> is \<open>KnowledgeBase.id\<close>, \<open>msg_id\<close> is \<open>Message.id\<close>).\<close>

record KnowledgeBase =
  kb_id :: string
  kb_title :: string
  kb_content :: string
  kb_tags :: "string list"

datatype role = user | assistant | system

record Message =
  msg_id :: string
  msg_role :: role
  msg_content :: string
  msg_timestamp :: int
  msg_usedContext :: "string list option"

subsection \<open>Mock AI logic: \<open>generateResponse\<close>\<close>

definition MOCK_AI_RESPONSES :: "string list" where
  "MOCK_AI_RESPONSES =
    [''That's an interesting point. Tell me more.'',
     ''I can certainly help with that based on the context provided.'',
     ''Here's a summary of what I found in your knowledge base.'',
     ''Could you clarify exactly what you mean?'',
     ''Let me analyze that information for you.'']"

text \<open>
  One attempt of the regular expression \<open>@\[([^\]]+)\]\<close> at the start of \<open>s\<close>: an at
  sign, an opening bracket, the longest run of characters other than the closing bracket,
  and the closing bracket. The run is greedy; a shorter run is followed by a character of
  the run, never by the bracket, so backtracking finds no other match. The result is the
  captured group and the text behind the match.
\<close>

definition notClose :: "char \<Rightarrow> bool" where
  "notClose c \<longleftrightarrow> c \<noteq> CHR '']''"

fun mentionRegex :: "string \<Rightarrow> (string \<times> string) option" where
  "mentionRegex (a # b # r) =
     (if a = CHR ''@'' \<and> b = CHR ''['' \<and> takeWhile notClose r \<noteq> [] \<and> dropWhile notClose r \<noteq> []
      then Some (takeWhile notClose r, tl (dropWhile notClose r))
      else None)"
| "mentionRegex s = None"

text \<open>\<open>[...userMessage.matchAll(mentionRegex)].map(m => m[1])\<close>: the matches from left
  to right, each search starting behind the previous match.\<close>

function matchAll :: "string \<Rightarrow> string list" where
  "matchAll [] = []"
| "matchAll (c # cs) =
     (case mentionRegex (c # cs) of
        Some (t, rest) \<Rightarrow> t # matchAll rest
      | None \<Rightarrow> matchAll cs)"
  by pat_completeness auto

lemma mentionRegex_shorter:
  "mentionRegex s = Some (t, rest) \<Longrightarrow> length rest < length s"
proof (cases s rule: mentionRegex.cases)
  case (1 a b r)
  assume m: "mentionRegex s = Some (t, rest)"
  from m 1 have rest: "rest = tl (dropWhile notClose r)"
    by (simp split: if_splits)
  have "length (tl (dropWhile notClose r)) \<le> length r"
    using length_dropWhile_le [of notClose r] by simp
  with rest 1 show ?thesis by simp
qed simp_all

termination matchAll
  by (relation "measure length") (auto dest: mentionRegex_shorter)

text \<open>
  The body of the timer callback. \<open>mentionedTitles\<close> are the captured groups;
  \<open>usedKBs\<close> keeps the knowledge bases whose title is among them.
\<close>

definition mentionedTitles :: "string \<Rightarrow> string list" where
  "mentionedTitles userMessage = matchAll userMessage"

definition usedKBs :: "string \<Rightarrow> KnowledgeBase list \<Rightarrow> KnowledgeBase list" where
  "usedKBs userMessage knowledgeBases =
     filter (\<lambda>kb. kb_title kb \<in> set (mentionedTitles userMessage)) knowledgeBases"

record response =
  resp_text :: string
  resp_usedContext :: "string list"

text \<open>How a promise settles. The executor of \<open>generateResponse\<close> only ever calls
  \<open>resolve\<close>; the caller has a \<open>catch\<close> branch all the same.\<close>

datatype 'a settled = Resolved 'a | Rejected string

text \<open>
  \<open>randomIndex\<close> is the reading \<open>Math.floor(Math.random() * MOCK_AI_RESPONSES.length)\<close>;
  an index outside the array reads \<open>undefined\<close>, which the template prints as such.
  The delay of the timer has no part in the result.
\<close>

definition generateResponse :: "nat \<Rightarrow> string \<Rightarrow> KnowledgeBase list \<Rightarrow> response settled" where
  "generateResponse randomIndex userMessage knowledgeBases =
     (let used = usedKBs userMessage knowledgeBases;
          responseText =
            (case used of
               first # _ \<Rightarrow>
                 (let contextSummary =
                        join (map (\<lambda>kb. [CHR 0x22] @ kb_title kb @ [CHR 0x22]) used) '' and ''
                  in ''I've analyzed the content from '' @ contextSummary @ ''. '' @
                     [CHR 0x0A, CHR 0x0A] @ ''Based on that knowledge: '' @
                     (if randomIndex < length MOCK_AI_RESPONSES
                      then MOCK_AI_RESPONSES ! randomIndex else ''undefined'') @
                     [CHR 0x0A, CHR 0x0A] @ ''(Context used: '' @
                     take 50 (kb_content first) @ ''...)'')
             | [] \<Rightarrow>
                 ''I received your message: '' @ [CHR 0x22] @ userMessage @ [CHR 0x22] @
                 ''. I didn't see any specific knowledge base tagged, so I'm answering with my general training.'')
      in Resolved \<lparr>resp_text = responseText, resp_usedContext = map kb_id used\<rparr>)"

subsection \<open>Component state\<close>

datatype view = chat | knowledge

text \<open>
  The state of \<open>App\<close> (\<open>view\<close>, \<open>knowledgeBases\<close>, \<open>messages\<close>), of
  \<open>ChatInterface\<close> (\<open>input\<close>, \<open>isTyping\<close>, \<open>mentionQuery\<close>, \<open>mentionIndex\<close>) and of
  \<open>KnowledgeManager\<close> (\<open>isCreating\<close>, \<open>newTitle\<close>, \<open>newContent\<close>, \<open>newTags\<close>), in one
  record. \<open>outstanding\<close> holds the calls of \<open>generateResponse\<close> that have not settled
  yet, each with the arguments it was started with.
\<close>

record state =
  view :: view
  knowledgeBases :: "KnowledgeBase list"
  messages :: "Message list"
  input :: string
  isTyping :: bool
  mentionQuery :: "string option"
  mentionIndex :: int
  outstanding :: "(string \<times> KnowledgeBase list) list"
  isCreating :: bool
  newTitle :: string
  newContent :: string
  newTags :: string

text \<open>The initial values of the \<open>useState\<close> calls; \<open>now\<close> is the clock when the
  greeting is made.\<close>

definition initialKnowledgeBases :: "KnowledgeBase list" where
  "initialKnowledgeBases =
    [\<lparr>kb_id = ''1'', kb_title = ''Product Docs'',
      kb_content = ''The product allows users to chat with documents. It supports markdown and exports.'',
      kb_tags = [''docs'', ''manual'']\<rparr>,
     \<lparr>kb_id = ''2'', kb_title = ''Marketing Copy'',
      kb_content = ''Our brand voice is friendly, professional, and concise. We use blue and white as primary colors.'',
      kb_tags = [''brand'', ''marketing'']\<rparr>,
     \<lparr>kb_id = ''3'', kb_title = ''Q3 Financials'',
      kb_content = ''Revenue up 20% QoQ. Operating expenses stable. Key growth in enterprise sector.'',
      kb_tags = [''finance'', ''private'']\<rparr>]"

definition initialState :: "int \<Rightarrow> state" where
  "initialState now =
    \<lparr>view = chat,
     knowledgeBases = initialKnowledgeBases,
     messages =
       [\<lparr>msg_id = ''1'', msg_role = assistant,
         msg_content = ''Hello! You can chat with me normally, or type '' @ [CHR 0x27] @ ''@'' @
           [CHR 0x27] @ '' to reference a Knowledge Base.'',
         msg_timestamp = now, msg_usedContext = None\<rparr>],
     input = [], isTyping = False, mentionQuery = None, mentionIndex = -1,
     outstanding = [],
     isCreating = False, newTitle = [], newContent = [], newTags = []\<rparr>"

subsection \<open>\<open>App\<close>: the knowledge store\<close>

definition handleCreateKB :: "KnowledgeBase \<Rightarrow> state \<Rightarrow> state" where
  "handleCreateKB kb st = st\<lparr>knowledgeBases := knowledgeBases st @ [kb], view := knowledge\<rparr>"

definition handleDeleteKB :: "string \<Rightarrow> state \<Rightarrow> state" where
  "handleDeleteKB i st =
     st\<lparr>knowledgeBases := filter (\<lambda>k. kb_id k \<noteq> i) (knowledgeBases st)\<rparr>"

subsection \<open>\<open>ChatInterface\<close>: the composer\<close>

definition handleInputChange :: "string \<Rightarrow> state \<Rightarrow> state" where
  "handleInputChange newVal st =
     (let st1 = st\<lparr>input := newVal\<rparr>;
          lastAtPos = lastIndexOf newVal (CHR ''@'')
      in if lastAtPos \<noteq> -1 \<and> \<not> includesStr (sliceFrom newVal (lastAtPos + 1)) '' ''
         then st1\<lparr>mentionQuery := Some (sliceFrom newVal (lastAtPos + 1)),
                  mentionIndex := lastAtPos\<rparr>
         else st1\<lparr>mentionQuery := None, mentionIndex := -1\<rparr>)"

text \<open>\<open>mentionQuery!.length\<close> on \<open>null\<close> throws a TypeError.\<close>

datatype error = TypeError

definition handleSelectKB :: "KnowledgeBase \<Rightarrow> state \<Rightarrow> error + state" where
  "handleSelectKB kb st =
     (if mentionIndex st = -1 then Inr st
      else (case mentionQuery st of
              None \<Rightarrow> Inl TypeError
            | Some q \<Rightarrow>
                (let before = slice (input st) 0 (mentionIndex st);
                     after = sliceFrom (input st) (mentionIndex st + int (length q) + 1);
                     newText = before @ ''@['' @ kb_title kb @ ''] '' @ after
                 in Inr (st\<lparr>input := newText, mentionQuery := None, mentionIndex := -1\<rparr>))))"

text \<open>
  \<open>handleSend\<close> up to its \<open>await\<close>: \<open>nowId\<close> and \<open>nowTs\<close> are the two readings of
  the clock for the user message. The call of \<open>generateResponse\<close> joins \<open>outstanding\<close>.
\<close>

definition handleSend :: "int \<Rightarrow> int \<Rightarrow> state \<Rightarrow> state" where
  "handleSend nowId nowTs st =
     (if trim (input st) = [] then st
      else (let userMsg = \<lparr>msg_id = toString nowId, msg_role = user, msg_content = input st,
                           msg_timestamp = nowTs, msg_usedContext = None\<rparr>
            in st\<lparr>messages := messages st @ [userMsg], input := [], isTyping := True,
                  outstanding := outstanding st @ [(msg_content userMsg, knowledgeBases st)]\<rparr>))"

text \<open>
  \<open>handleSend\<close> behind its \<open>await\<close>, when the \<open>k\<close>-th outstanding call settles: the
  \<open>try\<close> branch appends the reply, the \<open>catch\<close> branch only logs, and \<open>finally\<close>
  clears the composing flag.
\<close>

definition handleSendResume :: "nat \<Rightarrow> nat \<Rightarrow> int \<Rightarrow> int \<Rightarrow> state \<Rightarrow> state" where
  "handleSendResume k randomIndex nowId nowTs st =
     (if k < length (outstanding st)
      then (let (userMessage, kbs) = outstanding st ! k;
                st1 = st\<lparr>outstanding := take k (outstanding st) @ drop (Suc k) (outstanding st)\<rparr>;
                st2 = (case generateResponse randomIndex userMessage kbs of
                         Resolved r \<Rightarrow>
                           st1\<lparr>messages := messages st1 @
                                  [\<lparr>msg_id = toString (nowId + 1), msg_role = assistant,
                                    msg_content = resp_text r, msg_timestamp = nowTs,
                                    msg_usedContext = Some (resp_usedContext r)\<rparr>]\<rparr>
                       | Rejected e \<Rightarrow> st1)
            in st2\<lparr>isTyping := False\<rparr>)
      else st)"

definition handleKeyDown :: "string \<Rightarrow> bool \<Rightarrow> int \<Rightarrow> int \<Rightarrow> state \<Rightarrow> state" where
  "handleKeyDown key shiftKey nowId nowTs st =
     (if key = ''Enter'' \<and> \<not> shiftKey
      then (if mentionQuery st = None then handleSend nowId nowTs st else st)
      else st)"

text \<open>The send button: \<open>disabled={!input.trim() || isTyping}\<close>, \<open>onClick={handleSend}\<close>.
  A disabled button gives no click.\<close>

definition sendDisabled :: "state \<Rightarrow> bool" where
  "sendDisabled st \<longleftrightarrow> trim (input st) = [] \<or> isTyping st"

definition clickSend :: "int \<Rightarrow> int \<Rightarrow> state \<Rightarrow> state" where
  "clickSend nowId nowTs st = (if sendDisabled st then st else handleSend nowId nowTs st)"

definition filteredKBs :: "state \<Rightarrow> KnowledgeBase list" where
  "filteredKBs st =
     (case mentionQuery st of
        None \<Rightarrow> []
      | Some q \<Rightarrow>
          filter (\<lambda>kb. includesStr (toLowerCase (kb_title kb)) (toLowerCase q))
            (knowledgeBases st))"

subsection \<open>\<open>KnowledgeManager\<close>: the creation form\<close>

text \<open>The fields of the form: \<open>onChange={e => setNewTitle(e.target.value)}\<close> and its
  siblings, and the buttons that open and close the form.\<close>

definition setNewTitle :: "string \<Rightarrow> state \<Rightarrow> state" where
  "setNewTitle v st = st\<lparr>newTitle := v\<rparr>"

definition setNewContent :: "string \<Rightarrow> state \<Rightarrow> state" where
  "setNewContent v st = st\<lparr>newContent := v\<rparr>"

definition setNewTags :: "string \<Rightarrow> state \<Rightarrow> state" where
  "setNewTags v st = st\<lparr>newTags := v\<rparr>"

definition setIsCreating :: "bool \<Rightarrow> state \<Rightarrow> state" where
  "setIsCreating v st = st\<lparr>isCreating := v\<rparr>"

definition handleSubmit :: "int \<Rightarrow> state \<Rightarrow> state" where
  "handleSubmit now st =
     (if trim (newTitle st) = [] \<or> trim (newContent st) = [] then st
      else (handleCreateKB
              \<lparr>kb_id = toString now, kb_title = newTitle st, kb_content = newContent st,
               kb_tags = filter (\<lambda>t. t \<noteq> []) (map trim (split (newTags st) (CHR '','')))\<rparr>
              st)
           \<lparr>isCreating := False, newTitle := [], newContent := [], newTags := []\<rparr>)"

section \<open>The notions of the specification\<close>

subsection \<open>Mention tokens\<close>

text \<open>
  A mention token is \<open>@[\<close>, one or more characters other than \<open>]\<close>, and \<open>]\<close>. The scan of a
  text reads it from the left: where a token starts, the token is taken whole, and the scan
  goes on behind it; elsewhere one character is passed over. \<open>mentionTokens text ts\<close>: the
  scan of \<open>text\<close> finds the titles \<open>ts\<close>, in this order. \<open>isMentioned text title\<close>: some
  token of \<open>text\<close> has the title \<open>title\<close>.
\<close>

definition wellFormedTitle :: "string \<Rightarrow> bool" where
  "wellFormedTitle t \<longleftrightarrow> t \<noteq> [] \<and> CHR '']'' \<notin> set t"

definition startsMention :: "string \<Rightarrow> bool" where
  "startsMention s \<longleftrightarrow> (\<exists>t rest. wellFormedTitle t \<and> s = ''@['' @ t @ '']'' @ rest)"

inductive mentionTokens :: "string \<Rightarrow> string list \<Rightarrow> bool" where
  finished: "mentionTokens [] []"
| token: "wellFormedTitle t \<Longrightarrow> mentionTokens rest ts \<Longrightarrow>
     mentionTokens (''@['' @ t @ '']'' @ rest) (t # ts)"
| other: "\<not> startsMention (c # cs) \<Longrightarrow> mentionTokens cs ts \<Longrightarrow> mentionTokens (c # cs) ts"

definition isMentioned :: "string \<Rightarrow> string \<Rightarrow> bool" where
  "isMentioned text title \<longleftrightarrow> (\<exists>ts. mentionTokens text ts \<and> title \<in> set ts)"

subsection \<open>Mention queries\<close>

text \<open>
  \<open>activeQuery text q\<close>: \<open>q\<close> is the text behind the last \<open>@\<close> of \<open>text\<close>, and has no
  space. \<open>containsIgnoringCase title q\<close>: some substring of \<open>title\<close> is \<open>q\<close> up to the case
  of its letters.
\<close>

definition activeQuery :: "string \<Rightarrow> string \<Rightarrow> bool" where
  "activeQuery text q \<longleftrightarrow>
     (\<exists>pre. text = pre @ ''@'' @ q \<and> CHR ''@'' \<notin> set q \<and> CHR '' '' \<notin> set q)"

definition containsIgnoringCase :: "string \<Rightarrow> string \<Rightarrow> bool" where
  "containsIgnoringCase title q \<longleftrightarrow>
     (\<exists>pre w post. title = pre @ w @ post \<and> toLowerCase w = toLowerCase q)"

section \<open>The scan of the regular expression finds the mention tokens\<close>

lemma mentionRegex_Some_iff:
  "mentionRegex s = Some (t, rest) \<longleftrightarrow> wellFormedTitle t \<and> s = ''@['' @ t @ '']'' @ rest"
proof
  assume m: "mentionRegex s = Some (t, rest)"
  then obtain a b r where s: "s = a # b # r"
    by (cases s rule: mentionRegex.cases) simp_all
  from m s have ab: "a = CHR ''@''" "b = CHR ''[''"
    and t: "t = takeWhile notClose r" "t \<noteq> []"
    and d: "dropWhile notClose r \<noteq> []" "rest = tl (dropWhile notClose r)"
    by (auto split: if_splits)
  from d(1) have "\<not> notClose (hd (dropWhile notClose r))"
    by (rule hd_dropWhile)
  then have "hd (dropWhile notClose r) = CHR '']''"
    by (simp add: notClose_def)
  with d have dr: "dropWhile notClose r = CHR '']'' # rest"
    by (cases "dropWhile notClose r") simp_all
  have "r = takeWhile notClose r @ dropWhile notClose r"
    by simp
  with t dr have r: "r = t @ CHR '']'' # rest"
    by simp
  have "CHR '']'' \<notin> set t"
    using t(1) set_takeWhileD [of "CHR '']''" notClose r] by (auto simp: notClose_def)
  with t(2) s ab r show "wellFormedTitle t \<and> s = ''@['' @ t @ '']'' @ rest"
    by (simp add: wellFormedTitle_def)
next
  assume "wellFormedTitle t \<and> s = ''@['' @ t @ '']'' @ rest"
  then have t: "t \<noteq> []" "\<forall>x\<in>set t. notClose x" and s: "s = CHR ''@'' # CHR ''['' # (t @ CHR '']'' # rest)"
    by (auto simp: wellFormedTitle_def notClose_def)
  from t(2) have tw: "takeWhile notClose (t @ CHR '']'' # rest) = t"
    by (simp add: notClose_def)
  from t(2) have dw: "dropWhile notClose (t @ CHR '']'' # rest) = CHR '']'' # rest"
    by (simp add: notClose_def)
  show "mentionRegex s = Some (t, rest)"
    unfolding s by (simp add: tw dw t(1))
qed

lemma startsMention_iff: "startsMention s \<longleftrightarrow> mentionRegex s \<noteq> None"
proof
  assume "startsMention s"
  then obtain t rest where "wellFormedTitle t \<and> s = ''@['' @ t @ '']'' @ rest"
    unfolding startsMention_def by blast
  then have "mentionRegex s = Some (t, rest)"
    by (simp only: mentionRegex_Some_iff)
  then show "mentionRegex s \<noteq> None" by simp
next
  assume "mentionRegex s \<noteq> None"
  then obtain t rest where "mentionRegex s = Some (t, rest)"
    by (cases "mentionRegex s") auto
  then have "wellFormedTitle t \<and> s = ''@['' @ t @ '']'' @ rest"
    by (simp only: mentionRegex_Some_iff)
  then show "startsMention s"
    unfolding startsMention_def by blast
qed

lemma mentionTokens_matchAll: "mentionTokens s (matchAll s)"
proof (induction s rule: matchAll.induct)
  case 1
  show ?case by (simp add: mentionTokens.finished)
next
  case (2 c cs)
  show ?case
  proof (cases "mentionRegex (c # cs)")
    case None
    then have "\<not> startsMention (c # cs)" by (simp add: startsMention_iff)
    moreover from None 2 have "mentionTokens cs (matchAll cs)" by auto
    ultimately have "mentionTokens (c # cs) (matchAll cs)" by (rule mentionTokens.other)
    with None show ?thesis by simp
  next
    case (Some p)
    obtain t rest where p: "p = (t, rest)" by (cases p)
    with Some have m: "mentionRegex (c # cs) = Some (t, rest)" by simp
    then have wf: "wellFormedTitle t" and s: "c # cs = ''@['' @ t @ '']'' @ rest"
      by (simp_all add: mentionRegex_Some_iff)
    from m 2 have "mentionTokens rest (matchAll rest)" by auto
    with wf have "mentionTokens (''@['' @ t @ '']'' @ rest) (t # matchAll rest)"
      by (rule mentionTokens.token)
    then have "mentionTokens (c # cs) (t # matchAll rest)"
      by (simp only: s)
    moreover from m have "matchAll (c # cs) = t # matchAll rest"
      by simp
    ultimately show ?thesis by simp
  qed
qed

lemma mentionTokens_unique: "mentionTokens s ts \<Longrightarrow> ts = matchAll s"
proof (induction rule: mentionTokens.induct)
  case finished
  show ?case by simp
next
  case (token t rest ts)
  from token(1) have "mentionRegex (''@['' @ t @ '']'' @ rest) = Some (t, rest)"
    by (simp only: mentionRegex_Some_iff)
  moreover have "''@['' @ t @ '']'' @ rest = CHR ''@'' # (''['' @ t @ '']'' @ rest)" by simp
  ultimately have "matchAll (''@['' @ t @ '']'' @ rest) = t # matchAll rest"
    by (simp del: mentionRegex.simps)
  with token(3) show ?case by simp
next
  case (other c cs ts)
  from other(1) have "mentionRegex (c # cs) = None"
    unfolding startsMention_iff by (cases "mentionRegex (c # cs)") auto
  with other(3) show ?case by simp
qed

lemma mentionTokens_iff: "mentionTokens s ts \<longleftrightarrow> ts = matchAll s"
  using mentionTokens_matchAll mentionTokens_unique by blast

lemma isMentioned_iff: "isMentioned text title \<longleftrightarrow> title \<in> set (mentionedTitles text)"
  by (simp add: isMentioned_def mentionTokens_iff mentionedTitles_def)

text \<open>A token is read whole from its \<open>@[\<close> to the next \<open>]\<close>: an \<open>@[\<close> inside it is part
  of its title and opens no token of its own.\<close>

lemma matchAll_nested_opening: "matchAll ''@[@[a]'' = [''@[a'']"
  by (simp add: notClose_def)

section \<open>Commit resolution\<close>

lemma mentionTokens_occur:
  "mentionTokens s ts \<Longrightarrow> t \<in> set ts \<Longrightarrow>
   wellFormedTitle t \<and> (\<exists>pre post. s = pre @ ''@['' @ t @ '']'' @ post)"
proof (induction rule: mentionTokens.induct)
  case finished
  then show ?case by simp
next
  case (token u rest ts)
  show ?case
  proof (cases "t = u")
    case True
    have "''@['' @ u @ '']'' @ rest = [] @ ''@['' @ u @ '']'' @ rest" by simp
    with True token(1) show ?thesis by blast
  next
    case False
    with token obtain pre post where wf: "wellFormedTitle t"
      and "rest = pre @ ''@['' @ t @ '']'' @ post" by auto
    then have "''@['' @ u @ '']'' @ rest = (''@['' @ u @ '']'' @ pre) @ ''@['' @ t @ '']'' @ post"
      by simp
    with wf show ?thesis by blast
  qed
next
  case (other c cs ts)
  then obtain pre post where wf: "wellFormedTitle t"
    and "cs = pre @ ''@['' @ t @ '']'' @ post" by auto
  then have "c # cs = (c # pre) @ ''@['' @ t @ '']'' @ post" by simp
  with wf show ?case by blast
qed

lemma isMentioned_occurs:
  "isMentioned text t \<Longrightarrow>
   wellFormedTitle t \<and> (\<exists>pre post. text = pre @ ''@['' @ t @ '']'' @ post)"
  unfolding isMentioned_def using mentionTokens_occur by blast

text \<open>
  Claim C1. For every text and every knowledge store, the mention matching inside
  \<open>generateResponse\<close> returns exactly the entries of the store whose title is the title of
  some mention token of the text, in the order of the store: it is the store filtered by
  \<open>isMentioned\<close>, so a token that matches no entry adds nothing, the order of the mentions
  plays no part, and an entry is returned once however often it is mentioned (the result
  is a subsequence of the store, and its ids are distinct where the store's are). The title
  of every entry returned is well formed and stands in the text between \<open>@[\<close> and \<open>]\<close>,
  character by character.
\<close>

theorem usedKBs_commit_resolution:
  "usedKBs text kbs = filter (\<lambda>kb. isMentioned text (kb_title kb)) kbs \<and>
   subseq (usedKBs text kbs) kbs \<and>
   (distinct (map kb_id kbs) \<longrightarrow> distinct (map kb_id (usedKBs text kbs))) \<and>
   (\<forall>kb\<in>set (usedKBs text kbs).
      wellFormedTitle (kb_title kb) \<and>
      (\<exists>pre post. text = pre @ ''@['' @ kb_title kb @ '']'' @ post))"
proof -
  have eq: "usedKBs text kbs = filter (\<lambda>kb. isMentioned text (kb_title kb)) kbs"
    by (simp add: usedKBs_def isMentioned_iff)
  have "subseq (usedKBs text kbs) kbs"
    by (simp add: usedKBs_def)
  moreover have "distinct (map kb_id kbs) \<longrightarrow> distinct (map kb_id (usedKBs text kbs))"
    by (simp add: usedKBs_def distinct_map_filter)
  moreover have "\<forall>kb\<in>set (usedKBs text kbs).
      wellFormedTitle (kb_title kb) \<and>
      (\<exists>pre post. text = pre @ ''@['' @ kb_title kb @ '']'' @ post)"
  proof
    fix kb
    assume "kb \<in> set (usedKBs text kbs)"
    then have "isMentioned text (kb_title kb)"
      by (simp add: eq)
    then show "wellFormedTitle (kb_title kb) \<and>
      (\<exists>pre post. text = pre @ ''@['' @ kb_title kb @ '']'' @ post)"
      by (rule isMentioned_occurs)
  qed
  ultimately show ?thesis using eq by blast
qed

theorem usedKBs_commit_resolution_witness:
  "distinct (map kb_id initialKnowledgeBases) \<and>
   distinct (map kb_id
     (usedKBs ''Compare @[Q3 Financials] with @[Product Docs], @[Nope] and @[Product Docs]''
        initialKnowledgeBases)) \<and>
   map kb_id
     (usedKBs ''Compare @[Q3 Financials] with @[Product Docs], @[Nope] and @[Product Docs]''
        initialKnowledgeBases) = [''1'', ''3''] \<and>
   wellFormedTitle (kb_title (initialKnowledgeBases ! 0))"
proof -
  have d: "distinct (map kb_id initialKnowledgeBases)"
    by (simp add: initialKnowledgeBases_def)
  from usedKBs_commit_resolution
    [of "''Compare @[Q3 Financials] with @[Product Docs], @[Nope] and @[Product Docs]''"
        initialKnowledgeBases] d
  have r: "distinct (map kb_id
     (usedKBs ''Compare @[Q3 Financials] with @[Product Docs], @[Nope] and @[Product Docs]''
        initialKnowledgeBases))"
    by blast
  have u: "map kb_id
     (usedKBs ''Compare @[Q3 Financials] with @[Product Docs], @[Nope] and @[Product Docs]''
        initialKnowledgeBases) = [''1'', ''3'']"
    by code_simp
  have "initialKnowledgeBases ! 0 \<in> set
     (usedKBs ''Compare @[Q3 Financials] with @[Product Docs], @[Nope] and @[Product Docs]''
        initialKnowledgeBases)"
    by code_simp
  with usedKBs_commit_resolution
    [of "''Compare @[Q3 Financials] with @[Product Docs], @[Nope] and @[Product Docs]''"
        initialKnowledgeBases]
  have w: "wellFormedTitle (kb_title (initialKnowledgeBases ! 0))"
    by blast
  from d r u w show ?thesis by blast
qed

section \<open>Live suggestions\<close>

lemma startsWith_iff: "startsWith s sub \<longleftrightarrow> (\<exists>post. s = sub @ post)"
  by (induction s sub rule: startsWith.induct) auto

lemma includesStr_iff: "includesStr s sub \<longleftrightarrow> (\<exists>pre post. s = pre @ sub @ post)"
proof (induction s)
  case Nil
  show ?case by (simp add: startsWith_iff)
next
  case (Cons c cs)
  show ?case
  proof
    assume "includesStr (c # cs) sub"
    then consider "startsWith (c # cs) sub" | "includesStr cs sub" by auto
    then show "\<exists>pre post. c # cs = pre @ sub @ post"
    proof cases
      case 1
      then obtain post where "c # cs = [] @ sub @ post" by (auto simp: startsWith_iff)
      then show ?thesis by blast
    next
      case 2
      with Cons obtain pre post where "cs = pre @ sub @ post" by auto
      then have "c # cs = (c # pre) @ sub @ post" by simp
      then show ?thesis by blast
    qed
  next
    assume "\<exists>pre post. c # cs = pre @ sub @ post"
    then obtain pre post where e: "c # cs = pre @ sub @ post" by blast
    show "includesStr (c # cs) sub"
    proof (cases pre)
      case Nil
      with e have "startsWith (c # cs) sub" by (auto simp: startsWith_iff)
      then show ?thesis by simp
    next
      case (Cons d ds)
      with e have "cs = ds @ sub @ post" by simp
      with Cons.IH have "includesStr cs sub" by blast
      then show ?thesis by simp
    qed
  qed
qed

lemma includesStr_empty: "includesStr s []"
  by (cases s) simp_all

lemma includesStr_char: "includesStr s [c] \<longleftrightarrow> c \<in> set s"
  by (induction s) (auto)

lemma lastIndexOf_ge: "-1 \<le> lastIndexOf s c"
  by (induction s) (simp_all add: Let_def)

lemma lastIndexOf_none: "lastIndexOf s c = -1 \<longleftrightarrow> c \<notin> set s"
proof (induction s)
  case Nil
  show ?case by simp
next
  case (Cons d ds)
  have "lastIndexOf ds c + 1 \<noteq> -1"
    using lastIndexOf_ge [of ds c] by simp
  with Cons show ?case by (auto simp: Let_def)
qed

lemma lastIndexOf_last:
  "c \<notin> set q \<Longrightarrow> lastIndexOf (pre @ c # q) c = int (length pre)"
proof (induction pre)
  case Nil
  then have "lastIndexOf q c = -1" by (simp add: lastIndexOf_none)
  then show ?case by simp
next
  case (Cons d pre)
  then show ?case by (simp add: Let_def)
qed

lemma sliceFrom_nat: "sliceFrom s (int n) = drop n s"
  by (simp add: sliceFrom_def sliceIndex_def min_def)

lemma slice_take: "slice s 0 (int n) = take n s"
  by (simp add: slice_def sliceIndex_def min_def)

lemma toLowerCase_includes:
  "includesStr (toLowerCase title) (toLowerCase q) \<longleftrightarrow> containsIgnoringCase title q"
proof
  assume "includesStr (toLowerCase title) (toLowerCase q)"
  then obtain pre post where "map toLowerCaseChar title = pre @ toLowerCase q @ post"
    by (auto simp: includesStr_iff toLowerCase_def)
  then obtain us vs where t1: "title = us @ vs" and "toLowerCase q @ post = map toLowerCaseChar vs"
    by (auto simp: map_eq_append_conv)
  then obtain w ws where "vs = w @ ws" and "toLowerCase q = map toLowerCaseChar w"
    by (auto simp: append_eq_map_conv)
  with t1 have "title = us @ w @ ws \<and> toLowerCase w = toLowerCase q"
    by (simp add: toLowerCase_def)
  then show "containsIgnoringCase title q"
    unfolding containsIgnoringCase_def by blast
next
  assume "containsIgnoringCase title q"
  then obtain pre w post where "title = pre @ w @ post" and "toLowerCase w = toLowerCase q"
    unfolding containsIgnoringCase_def by blast
  then have "toLowerCase title = toLowerCase pre @ toLowerCase q @ toLowerCase post"
    by (simp add: toLowerCase_def)
  then show "includesStr (toLowerCase title) (toLowerCase q)"
    unfolding includesStr_iff by blast
qed

lemma handleInputChange_active:
  assumes "activeQuery newVal q"
  shows "handleInputChange newVal st =
    st\<lparr>input := newVal, mentionQuery := Some q,
       mentionIndex := int (length newVal) - int (length q) - 1\<rparr>"
proof -
  from assms obtain pre where v: "newVal = pre @ CHR ''@'' # q"
    and q: "CHR ''@'' \<notin> set q" "CHR '' '' \<notin> set q"
    unfolding activeQuery_def by auto
  from q(1) have l: "lastIndexOf newVal (CHR ''@'') = int (length pre)"
    unfolding v by (rule lastIndexOf_last)
  have "int (length pre) + 1 = int (Suc (length pre))" by simp
  then have a: "sliceFrom newVal (int (length pre) + 1) = q"
    unfolding v by (simp only: sliceFrom_nat) simp
  from q(2) have "\<not> includesStr q '' ''" by (simp add: includesStr_char)
  with l a show ?thesis
    by (simp add: handleInputChange_def Let_def v)
qed

lemma handleInputChange_inactive:
  assumes "\<nexists>q. activeQuery newVal q"
  shows "handleInputChange newVal st = st\<lparr>input := newVal, mentionQuery := None, mentionIndex := -1\<rparr>"
proof (cases "lastIndexOf newVal (CHR ''@'') = -1")
  case True
  then show ?thesis by (simp add: handleInputChange_def Let_def)
next
  case False
  then have "CHR ''@'' \<in> set newVal" by (simp add: lastIndexOf_none)
  then obtain pre q where v: "newVal = pre @ CHR ''@'' # q" and q: "CHR ''@'' \<notin> set q"
    by (auto dest: split_list_last)
  from q have l: "lastIndexOf newVal (CHR ''@'') = int (length pre)"
    unfolding v by (rule lastIndexOf_last)
  have "int (length pre) + 1 = int (Suc (length pre))" by simp
  then have a: "sliceFrom newVal (int (length pre) + 1) = q"
    unfolding v by (simp only: sliceFrom_nat) simp
  from assms v q have "CHR '' '' \<in> set q"
    unfolding activeQuery_def by auto
  then have "includesStr q '' ''" by (simp only: includesStr_char)
  with l a show ?thesis
    by (simp add: handleInputChange_def Let_def)
qed

text \<open>
  Claim C2. After a change of the input to \<open>newVal\<close>: when \<open>q\<close> is the active mention query
  of \<open>newVal\<close>, the popup's list \<open>filteredKBs\<close> is the store filtered, in its order, by
  "the title contains \<open>q\<close> ignoring case"; when the query is the empty string, it is the
  whole store; and when no query is active, the query state is \<open>null\<close> and the list is
  empty.
\<close>

theorem filteredKBs_live_suggestions:
  "(activeQuery newVal q \<longrightarrow>
      mentionQuery (handleInputChange newVal st) = Some q \<and>
      filteredKBs (handleInputChange newVal st) =
        filter (\<lambda>kb. containsIgnoringCase (kb_title kb) q) (knowledgeBases st)) \<and>
   (activeQuery newVal [] \<longrightarrow> filteredKBs (handleInputChange newVal st) = knowledgeBases st) \<and>
   ((\<nexists>q. activeQuery newVal q) \<longrightarrow>
      mentionQuery (handleInputChange newVal st) = None \<and>
      filteredKBs (handleInputChange newVal st) = [])"
proof (intro conjI impI)
  assume a: "activeQuery newVal q"
  show "mentionQuery (handleInputChange newVal st) = Some q"
    by (simp add: handleInputChange_active [OF a])
  show "filteredKBs (handleInputChange newVal st) =
        filter (\<lambda>kb. containsIgnoringCase (kb_title kb) q) (knowledgeBases st)"
    by (simp add: handleInputChange_active [OF a] filteredKBs_def toLowerCase_includes)
next
  assume a: "activeQuery newVal []"
  show "filteredKBs (handleInputChange newVal st) = knowledgeBases st"
    by (simp add: handleInputChange_active [OF a] filteredKBs_def toLowerCase_def
        includesStr_empty)
next
  assume n: "\<nexists>q. activeQuery newVal q"
  show "mentionQuery (handleInputChange newVal st) = None"
    by (simp add: handleInputChange_inactive [OF n])
  show "filteredKBs (handleInputChange newVal st) = []"
    by (simp add: handleInputChange_inactive [OF n] filteredKBs_def)
qed

lemma activeQuery_check_prod: "activeQuery ''check @prod'' ''prod''"
  unfolding activeQuery_def by (rule exI [of _ "''check ''"]) simp

lemma activeQuery_bare_at: "activeQuery ''hi @'' []"
  unfolding activeQuery_def by (rule exI [of _ "''hi ''"]) simp

lemma activeQuery_space_behind_at: "\<nexists>q. activeQuery ''a@b c'' q"
proof
  assume "\<exists>q. activeQuery ''a@b c'' q"
  then obtain q pre where e: "''a@b c'' = pre @ CHR ''@'' # q" and q: "CHR ''@'' \<notin> set q" "CHR '' '' \<notin> set q"
    unfolding activeQuery_def by auto
  have "lastIndexOf ''a@b c'' (CHR ''@'') = int (length pre)"
    unfolding e using q(1) by (rule lastIndexOf_last)
  moreover have "lastIndexOf ''a@b c'' (CHR ''@'') = 1"
    by (simp add: Let_def)
  ultimately have "length pre = 1" by simp
  with e have "q = ''b c''" by (cases pre) auto
  with q show False by simp
qed

theorem filteredKBs_live_suggestions_witness:
  "activeQuery ''check @prod'' ''prod'' \<and>
   mentionQuery (handleInputChange ''check @prod'' (initialState 0)) = Some ''prod'' \<and>
   map kb_id (filteredKBs (handleInputChange ''check @prod'' (initialState 0))) = [''1''] \<and>
   activeQuery ''hi @'' [] \<and>
   filteredKBs (handleInputChange ''hi @'' (initialState 0)) = knowledgeBases (initialState 0) \<and>
   (\<nexists>q. activeQuery ''a@b c'' q) \<and>
   filteredKBs (handleInputChange ''a@b c'' (initialState 0)) = []"
proof -
  from filteredKBs_live_suggestions [of "''check @prod''" "''prod''" "initialState 0"]
    activeQuery_check_prod
  have 1: "mentionQuery (handleInputChange ''check @prod'' (initialState 0)) = Some ''prod''"
    by blast
  from filteredKBs_live_suggestions [of "''hi @''" "[]" "initialState 0"] activeQuery_bare_at
  have 2: "filteredKBs (handleInputChange ''hi @'' (initialState 0)) =
      knowledgeBases (initialState 0)"
    by blast
  from filteredKBs_live_suggestions [of "''a@b c''" "[]" "initialState 0"] activeQuery_space_behind_at
  have 3: "filteredKBs (handleInputChange ''a@b c'' (initialState 0)) = []"
    by blast
  have 4: "map kb_id (filteredKBs (handleInputChange ''check @prod'' (initialState 0))) =
      [''1'']"
    by code_simp
  from 1 2 3 4 activeQuery_check_prod activeQuery_bare_at activeQuery_space_behind_at show ?thesis by blast
qed

section \<open>The ids of the knowledge store\<close>

text \<open>
  Claim C3. In every state reached by creating and deleting entries, the ids of the store
  are pairwise distinct: every creation gives an id that no entry of the store has.
  \<open>handleSubmit\<close> takes the id from the clock alone and looks at no id of the store. Two
  submissions that read the same clock value give two entries with one id (and deleting
  either of them by its id removes both), and a clock that reads 1 repeats the id of the
  first seeded entry.
\<close>

theorem handleSubmit_repeats_id:
  "map kb_id (knowledgeBases
      (handleSubmit 1700000000000
        (setNewContent ''beta'' (setNewTitle ''Notes'' (setIsCreating True
          (handleSubmit 1700000000000
            (setNewContent ''alpha'' (setNewTitle ''Specs'' (setIsCreating True
              (initialState 0)))))))))) =
     [''1'', ''2'', ''3'', toString 1700000000000, toString 1700000000000] \<and>
   map kb_title (knowledgeBases
      (handleDeleteKB (toString 1700000000000)
        (handleSubmit 1700000000000
          (setNewContent ''beta'' (setNewTitle ''Notes'' (setIsCreating True
            (handleSubmit 1700000000000
              (setNewContent ''alpha'' (setNewTitle ''Specs'' (setIsCreating True
                (initialState 0))))))))))) =
     [''Product Docs'', ''Marketing Copy'', ''Q3 Financials''] \<and>
   map kb_id (knowledgeBases
      (handleSubmit 1
        (setNewContent ''alpha'' (setNewTitle ''Specs'' (setIsCreating True
          (initialState 0)))))) = [''1'', ''2'', ''3'', ''1'']"
proof -
  have big: "toString 1700000000000 = ''1700000000000''"
    by (simp add: toString_def digits.simps)
  have one: "toString 1 = ''1''"
    by (simp add: toString_def digits.simps)
  show ?thesis
    by (simp add: big one handleSubmit_def handleCreateKB_def handleDeleteKB_def
        setNewTitle_def setNewContent_def setIsCreating_def initialState_def
        initialKnowledgeBases_def trim_def isWhiteSpace_def)
qed

section \<open>Sending from the composer\<close>

lemma clickSend_while_typing: "isTyping st \<Longrightarrow> clickSend nowId nowTs st = st"
  by (simp add: clickSend_def sendDisabled_def)

lemma handleKeyDown_popup_closed:
  "mentionQuery st = None \<Longrightarrow>
   handleKeyDown ''Enter'' False nowId nowTs st = handleSend nowId nowTs st"
  by (simp add: handleKeyDown_def)

text \<open>
  Claim C4. While a response is pending, no send action starts another response
  generation. The send button is disabled while \<open>isTyping\<close> holds; \<open>handleKeyDown\<close> calls
  \<open>handleSend\<close> without looking at \<open>isTyping\<close>. After "hello" is sent with Enter, typing
  "again" and pressing Enter starts a second generation while the first is outstanding.
\<close>

theorem handleKeyDown_sends_while_typing:
  "isTyping (handleInputChange ''again''
      (handleKeyDown ''Enter'' False 1000 1000 (handleInputChange ''hello'' (initialState 0)))) \<and>
   sendDisabled (handleInputChange ''again''
      (handleKeyDown ''Enter'' False 1000 1000 (handleInputChange ''hello'' (initialState 0)))) \<and>
   map fst (outstanding (handleInputChange ''again''
      (handleKeyDown ''Enter'' False 1000 1000 (handleInputChange ''hello'' (initialState 0))))) =
     [''hello''] \<and>
   map fst (outstanding (handleKeyDown ''Enter'' False 1500 1500 (handleInputChange ''again''
      (handleKeyDown ''Enter'' False 1000 1000 (handleInputChange ''hello'' (initialState 0)))))) =
     [''hello'', ''again'']"
  by (simp add: handleKeyDown_def handleSend_def handleInputChange_def Let_def sendDisabled_def
      initialState_def trim_def isWhiteSpace_def)

text \<open>
  Claim C5. Enter without a modifier sends whenever the trimmed input is not empty,
  whether or not the suggestion popup is open. \<open>handleKeyDown\<close> sends only when
  \<open>mentionQuery\<close> is \<open>null\<close>: with the input "hi @prod" the popup is open, and Enter
  leaves the state as it is, with no message appended and no generation started. The same
  holds for any input whose last \<open>@\<close> has no space behind it, such as a mail address.
\<close>

theorem handleKeyDown_blocked_by_popup:
  "trim (input (handleInputChange ''hi @prod'' (initialState 0))) = ''hi @prod'' \<and>
   mentionQuery (handleInputChange ''hi @prod'' (initialState 0)) = Some ''prod'' \<and>
   handleKeyDown ''Enter'' False 1000 1000 (handleInputChange ''hi @prod'' (initialState 0)) =
     handleInputChange ''hi @prod'' (initialState 0) \<and>
   messages (handleKeyDown ''Enter'' False 1000 1000
     (handleInputChange ''hi @prod'' (initialState 0))) = messages (initialState 0) \<and>
   outstanding (handleKeyDown ''Enter'' False 1000 1000
     (handleInputChange ''hi @prod'' (initialState 0))) = [] \<and>
   mentionQuery (handleInputChange ''ask bob@example.com'' (initialState 0)) =
     Some ''example.com'' \<and>
   handleKeyDown ''Enter'' False 1000 1000
     (handleInputChange ''ask bob@example.com'' (initialState 0)) =
     handleInputChange ''ask bob@example.com'' (initialState 0)"
  by (simp add: handleKeyDown_def handleSend_def handleInputChange_def Let_def
      sliceFrom_def sliceIndex_def initialState_def trim_def isWhiteSpace_def)

section \<open>Creating and deleting entries\<close>

lemma trim_empty_iff: "trim s = [] \<longleftrightarrow> (\<forall>c\<in>set s. isWhiteSpace c)"
proof
  assume "trim s = []"
  then have a: "\<forall>c\<in>set (dropWhile isWhiteSpace s). isWhiteSpace c"
    by (simp add: trim_def)
  have "dropWhile isWhiteSpace s = []"
  proof (rule ccontr)
    assume n: "dropWhile isWhiteSpace s \<noteq> []"
    then have "\<not> isWhiteSpace (hd (dropWhile isWhiteSpace s))" by (rule hd_dropWhile)
    moreover from n have "hd (dropWhile isWhiteSpace s) \<in> set (dropWhile isWhiteSpace s)" by simp
    ultimately show False using a by blast
  qed
  then show "\<forall>c\<in>set s. isWhiteSpace c" by simp
next
  assume "\<forall>c\<in>set s. isWhiteSpace c"
  then have "dropWhile isWhiteSpace s = []" by simp
  then show "trim s = []" by (simp add: trim_def del: dropWhile_eq_Nil_conv)
qed

text \<open>
  Claim C6. When the title or the content is empty or holds white space only, the
  creation is a silent no-op: \<open>handleSubmit\<close> returns the state it was given, so the store
  is unchanged, and it has no error to return.
\<close>

theorem handleSubmit_blank_is_noop:
  "(\<forall>c\<in>set (newTitle st). isWhiteSpace c) \<or> (\<forall>c\<in>set (newContent st). isWhiteSpace c) \<Longrightarrow>
   handleSubmit now st = st"
  by (auto simp: handleSubmit_def trim_empty_iff [symmetric])

theorem handleSubmit_blank_is_noop_witness:
  "handleSubmit 1700000000000 (setNewContent ''body'' (setNewTitle [] (initialState 0))) =
     setNewContent ''body'' (setNewTitle [] (initialState 0)) \<and>
   handleSubmit 1700000000000
     (setNewContent [CHR '' '', CHR 0x0A] (setNewTitle ''Specs'' (initialState 0))) =
     setNewContent [CHR '' '', CHR 0x0A] (setNewTitle ''Specs'' (initialState 0))"
proof -
  let ?a = "setNewContent ''body'' (setNewTitle [] (initialState 0))"
  let ?b = "setNewContent [CHR '' '', CHR 0x0A] (setNewTitle ''Specs'' (initialState 0))"
  have 1: "(\<forall>c\<in>set (newTitle ?a). isWhiteSpace c) \<or> (\<forall>c\<in>set (newContent ?a). isWhiteSpace c)"
    by (simp add: setNewTitle_def setNewContent_def)
  have 2: "(\<forall>c\<in>set (newTitle ?b). isWhiteSpace c) \<or> (\<forall>c\<in>set (newContent ?b). isWhiteSpace c)"
    by (simp add: setNewTitle_def setNewContent_def isWhiteSpace_def)
  from handleSubmit_blank_is_noop [OF 1] handleSubmit_blank_is_noop [OF 2]
  show ?thesis by simp
qed

text \<open>
  Claim C7. \<open>handleDeleteKB i\<close> leaves the state as it is when no entry has the id \<open>i\<close>,
  and when \<open>k\<close> is the entry with the id \<open>i\<close> it removes \<open>k\<close> and keeps the entries before
  and behind it, in their order. It has no error to return.
\<close>

theorem handleDeleteKB_removes_matching:
  "(i \<notin> kb_id ` set (knowledgeBases st) \<longrightarrow> handleDeleteKB i st = st) \<and>
   (knowledgeBases st = xs @ k # ys \<and> kb_id k = i \<and>
      i \<notin> kb_id ` set xs \<and> i \<notin> kb_id ` set ys \<longrightarrow>
    handleDeleteKB i st = st\<lparr>knowledgeBases := xs @ ys\<rparr>)"
proof (intro conjI impI)
  assume "i \<notin> kb_id ` set (knowledgeBases st)"
  then have "\<forall>x\<in>set (knowledgeBases st). kb_id x \<noteq> i"
    by blast
  then have "filter (\<lambda>k. kb_id k \<noteq> i) (knowledgeBases st) = knowledgeBases st"
    by (simp add: filter_id_conv)
  then show "handleDeleteKB i st = st"
    by (simp add: handleDeleteKB_def)
next
  assume a: "knowledgeBases st = xs @ k # ys \<and> kb_id k = i \<and>
      i \<notin> kb_id ` set xs \<and> i \<notin> kb_id ` set ys"
  then have "\<forall>x\<in>set xs. kb_id x \<noteq> i" and "\<forall>x\<in>set ys. kb_id x \<noteq> i"
    by blast+
  then have "filter (\<lambda>k. kb_id k \<noteq> i) xs = xs" and "filter (\<lambda>k. kb_id k \<noteq> i) ys = ys"
    by (simp_all add: filter_id_conv)
  with a have "filter (\<lambda>k. kb_id k \<noteq> i) (knowledgeBases st) = xs @ ys"
    by simp
  then show "handleDeleteKB i st = st\<lparr>knowledgeBases := xs @ ys\<rparr>"
    by (simp add: handleDeleteKB_def)
qed

theorem handleDeleteKB_removes_matching_witness:
  "handleDeleteKB ''99'' (initialState 0) = initialState 0 \<and>
   map kb_id (knowledgeBases (handleDeleteKB ''2'' (initialState 0))) = [''1'', ''3'']"
proof -
  have 1: "''99'' \<notin> kb_id ` set (knowledgeBases (initialState 0))"
    by (simp add: initialState_def initialKnowledgeBases_def)
  let ?k1 = "initialKnowledgeBases ! 0"
  let ?k2 = "initialKnowledgeBases ! 1"
  let ?k3 = "initialKnowledgeBases ! 2"
  have 2: "knowledgeBases (initialState 0) = [?k1] @ ?k2 # [?k3] \<and> kb_id ?k2 = ''2'' \<and>
    ''2'' \<notin> kb_id ` set [?k1] \<and> ''2'' \<notin> kb_id ` set [?k3]"
    by (simp add: initialState_def initialKnowledgeBases_def)
  from handleDeleteKB_removes_matching [of "''99''" "initialState 0"] 1
  have a: "handleDeleteKB ''99'' (initialState 0) = initialState 0"
    by blast
  from handleDeleteKB_removes_matching [of "''2''" "initialState 0" "[?k1]" ?k2 "[?k3]"] 2
  have "handleDeleteKB ''2'' (initialState 0) =
     (initialState 0)\<lparr>knowledgeBases := [?k1] @ [?k3]\<rparr>"
    by blast
  then have "map kb_id (knowledgeBases (handleDeleteKB ''2'' (initialState 0))) = [''1'', ''3'']"
    by (simp add: initialKnowledgeBases_def)
  with a show ?thesis by simp
qed

section \<open>Selecting a suggestion\<close>

text \<open>
  Claim C8. With the triggering \<open>@\<close> at index \<open>i\<close> and the query \<open>q\<close>, selecting the entry
  \<open>kb\<close> sets the input to the text before index \<open>i\<close>, then \<open>@[\<close>, the title, \<open>]\<close> and a
  space, then the text from index \<open>i + 1 + length q\<close> on; the query is closed. No other
  field of the state changes: not the knowledge bases, not the messages.
\<close>

theorem handleSelectKB_rewrites_input:
  "mentionIndex st = int i \<Longrightarrow> mentionQuery st = Some q \<Longrightarrow>
   handleSelectKB kb st =
     Inr (st\<lparr>input := take i (input st) @ ''@['' @ kb_title kb @ ''] '' @
                        drop (i + 1 + length q) (input st),
              mentionQuery := None, mentionIndex := -1\<rparr>)"
proof -
  assume i: "mentionIndex st = int i" and q: "mentionQuery st = Some q"
  have "int i + int (length q) + 1 = int (i + 1 + length q)" by simp
  then have "sliceFrom (input st) (int i + int (length q) + 1) = drop (i + 1 + length q) (input st)"
    by (simp only: sliceFrom_nat)
  with i q show ?thesis
    by (simp add: handleSelectKB_def slice_take Let_def)
qed

theorem handleSelectKB_rewrites_input_witness:
  "mentionIndex (handleInputChange ''check @prod'' (initialState 0)) = 6 \<and>
   mentionQuery (handleInputChange ''check @prod'' (initialState 0)) = Some ''prod'' \<and>
   handleSelectKB (initialKnowledgeBases ! 0) (handleInputChange ''check @prod'' (initialState 0)) =
     Inr ((initialState 0)\<lparr>input := ''check @[Product Docs] ''\<rparr>)"
proof -
  have s: "handleInputChange ''check @prod'' (initialState 0) =
      (initialState 0)\<lparr>input := ''check @prod'', mentionQuery := Some ''prod'', mentionIndex := 6\<rparr>"
    by (simp add: handleInputChange_def Let_def sliceFrom_def sliceIndex_def)
  have i: "mentionIndex (handleInputChange ''check @prod'' (initialState 0)) = int 6"
    and q: "mentionQuery (handleInputChange ''check @prod'' (initialState 0)) = Some ''prod''"
    by (simp_all add: s)
  have t: "kb_title (initialKnowledgeBases ! 0) = ''Product Docs''"
    by (simp add: initialKnowledgeBases_def)
  have "handleSelectKB (initialKnowledgeBases ! 0)
          (handleInputChange ''check @prod'' (initialState 0)) =
        Inr ((handleInputChange ''check @prod'' (initialState 0))
          \<lparr>input := take 6 (input (handleInputChange ''check @prod'' (initialState 0))) @
             ''@['' @ kb_title (initialKnowledgeBases ! 0) @ ''] '' @
             drop (6 + 1 + length ''prod'')
               (input (handleInputChange ''check @prod'' (initialState 0))),
           mentionQuery := None, mentionIndex := -1\<rparr>)"
    by (rule handleSelectKB_rewrites_input [OF i q])
  also have "\<dots> = Inr ((initialState 0)\<lparr>input := ''check @[Product Docs] ''\<rparr>)"
    unfolding s by (simp add: t initialState_def)
  finally show ?thesis
    using i q by simp
qed

section \<open>Response generation without context\<close>

lemma includesStr_middle: "includesStr (pre @ sub @ post) sub"
  unfolding includesStr_iff by blast

text \<open>
  Claim C9. When the mention matching finds no entry (no entry of the store has a title
  that the text mentions), \<open>generateResponse\<close> resolves, with an empty list of used ids and
  with the reply that holds the user's text between quotation marks and says that no
  knowledge base was tagged.
\<close>

theorem generateResponse_no_context:
  assumes "\<forall>kb\<in>set kbs. \<not> isMentioned userMessage (kb_title kb)"
  shows "\<exists>t. generateResponse randomIndex userMessage kbs =
             Resolved \<lparr>resp_text = t, resp_usedContext = []\<rparr> \<and>
           t = ''I received your message: '' @ [CHR 0x22] @ userMessage @ [CHR 0x22] @
             ''. I didn't see any specific knowledge base tagged, so I'm answering with my general training.'' \<and>
           includesStr t ([CHR 0x22] @ userMessage @ [CHR 0x22])"
proof -
  from assms have u: "usedKBs userMessage kbs = []"
    by (simp add: usedKBs_def isMentioned_iff filter_empty_conv)
  have "includesStr
      (''I received your message: '' @ ([CHR 0x22] @ userMessage @ [CHR 0x22]) @
       ''. I didn't see any specific knowledge base tagged, so I'm answering with my general training.'')
      ([CHR 0x22] @ userMessage @ [CHR 0x22])"
    by (rule includesStr_middle)
  with u show ?thesis
    by (simp add: generateResponse_def)
qed

theorem generateResponse_no_context_witness:
  "usedKBs ''hello'' initialKnowledgeBases = [] \<and>
   generateResponse 3 ''hello'' initialKnowledgeBases =
     Resolved \<lparr>resp_text = ''I received your message: '' @ [CHR 0x22] @ ''hello'' @ [CHR 0x22] @
       ''. I didn't see any specific knowledge base tagged, so I'm answering with my general training.'',
       resp_usedContext = []\<rparr>"
proof -
  have u: "usedKBs ''hello'' initialKnowledgeBases = []"
    by (simp add: usedKBs_def mentionedTitles_def initialKnowledgeBases_def)
  then have "\<forall>kb\<in>set initialKnowledgeBases. \<not> isMentioned ''hello'' (kb_title kb)"
    by (simp add: usedKBs_def isMentioned_iff filter_empty_conv)
  from generateResponse_no_context [OF this, of 3] u show ?thesis
    by auto
qed

section \<open>Titles with white space\<close>

text \<open>
  Claim C10. \<open>handleSubmit\<close> trims the title and the content for its check only: the entry
  it appends holds both as they were entered. An entry is returned by the mention
  matching exactly when it is in the store and its title, as stored, is the title of a
  mention token; so a title with white space around it is matched only by a token that
  has the same white space.
\<close>

theorem handleSubmit_keeps_whitespace:
  "trim (newTitle st) \<noteq> [] \<Longrightarrow> trim (newContent st) \<noteq> [] \<Longrightarrow>
   knowledgeBases (handleSubmit now st) =
     knowledgeBases st @
       [\<lparr>kb_id = toString now, kb_title = newTitle st, kb_content = newContent st,
         kb_tags = filter (\<lambda>t. t \<noteq> []) (map trim (split (newTags st) (CHR '','')))\<rparr>] \<and>
   (\<forall>text kb. kb \<in> set (usedKBs text (knowledgeBases (handleSubmit now st))) \<longleftrightarrow>
      kb \<in> set (knowledgeBases (handleSubmit now st)) \<and> isMentioned text (kb_title kb))"
  by (auto simp: handleSubmit_def handleCreateKB_def usedKBs_def isMentioned_iff)

theorem handleSubmit_keeps_whitespace_witness:
  "trim '' Docs '' = ''Docs'' \<and>
   map kb_title (knowledgeBases (handleSubmit 1700000000000
      (setNewContent ''x'' (setNewTitle '' Docs '' (initialState 0))))) =
     [''Product Docs'', ''Marketing Copy'', ''Q3 Financials'', '' Docs ''] \<and>
   usedKBs ''see @[Docs]'' (knowledgeBases (handleSubmit 1700000000000
      (setNewContent ''x'' (setNewTitle '' Docs '' (initialState 0))))) = [] \<and>
   map kb_title (usedKBs ''see @[ Docs ]'' (knowledgeBases (handleSubmit 1700000000000
      (setNewContent ''x'' (setNewTitle '' Docs '' (initialState 0)))))) = ['' Docs '']"
proof -
  let ?st = "setNewContent ''x'' (setNewTitle '' Docs '' (initialState 0))"
  have t: "trim '' Docs '' = ''Docs''"
    by (simp add: trim_def isWhiteSpace_def)
  have f: "newTitle ?st = '' Docs ''" "newContent ?st = ''x''" "newTags ?st = []"
    "knowledgeBases ?st = initialKnowledgeBases"
    by (simp_all add: setNewTitle_def setNewContent_def initialState_def)
  have 1: "trim (newTitle ?st) \<noteq> []"
    by (simp add: f t)
  have 2: "trim (newContent ?st) \<noteq> []"
    by (simp add: f trim_def isWhiteSpace_def)
  from handleSubmit_keeps_whitespace [OF 1 2, of 1700000000000]
  have k: "knowledgeBases (handleSubmit 1700000000000 ?st) =
     initialKnowledgeBases @
       [\<lparr>kb_id = toString 1700000000000, kb_title = '' Docs '', kb_content = ''x'',
         kb_tags = filter (\<lambda>t. t \<noteq> []) (map trim (split [] (CHR '','')))\<rparr>]"
    by (simp add: f)
  have m1: "mentionedTitles ''see @[Docs]'' = [''Docs'']"
    by (simp add: mentionedTitles_def notClose_def)
  have m2: "mentionedTitles ''see @[ Docs ]'' = ['' Docs '']"
    by (simp add: mentionedTitles_def notClose_def)
  show ?thesis
    unfolding k by (simp add: t usedKBs_def m1 m2 initialKnowledgeBases_def)
qed

end
